theory Spec2Isabelle
  imports Main "HOL-Library.Sublist"
begin

section \<open>Python string primitives used by the caption pipeline\<close>

text \<open>
  A Python \<open>str\<close> is modelled as a \<open>string\<close>: a list of characters, one \<open>char\<close> per
  code point (code points below 256). \<open>len\<close> is \<open>length\<close>, \<open>+\<close> is \<open>@\<close>, and a string is
  truthy exactly when it is not \<open>[]\<close>.
\<close>

definition py_isspace :: "char \<Rightarrow> bool" where
  \<comment> \<open>The code points below 256 that \<open>str.strip()\<close> removes: TAB, LF, VT, FF, CR,
      FS, GS, RS, US, SPACE, NEL and NBSP.\<close>
  "py_isspace c = (of_char c \<in> {9, 10, 11, 12, 13, 28, 29, 30, 31, 32, 133, 160 :: nat})"

definition py_lstrip :: "string \<Rightarrow> string" where
  "py_lstrip s = dropWhile py_isspace s"

definition py_rstrip :: "string \<Rightarrow> string" where
  "py_rstrip s = rev (dropWhile py_isspace (rev s))"

definition py_strip :: "string \<Rightarrow> string" where
  \<comment> \<open>\<open>s.strip()\<close>\<close>
  "py_strip s = py_rstrip (py_lstrip s)"

definition py_last :: "int \<Rightarrow> 'a list \<Rightarrow> 'a list" where
  \<comment> \<open>The slice \<open>s[-n:]\<close> for an \<open>int\<close> \<open>n\<close>. For \<open>n > 0\<close> the start index \<open>-n\<close> counts
      from the end and is clamped at 0; \<open>-0\<close> is \<open>0\<close>, so \<open>s[-0:]\<close> is all of \<open>s\<close>; for
      \<open>n < 0\<close> the start index \<open>-n\<close> is positive and the slice drops \<open>-n\<close> characters
      from the front.\<close>
  "py_last n s = (if 0 < n then drop (length s - nat n) s else drop (nat (- n)) s)"

fun py_contains :: "'a list \<Rightarrow> 'a list \<Rightarrow> bool" where
  \<comment> \<open>\<open>sub in s\<close>\<close>
  "py_contains sub [] = (sub = [])"
| "py_contains sub (c # cs) = (prefix sub (c # cs) \<or> py_contains sub cs)"



definition newline :: char where
  "newline = CHR 0x0A"

section \<open>The translating pipeline (\<open>live_translate.py\<close>)\<close>

subsection \<open>Queue items and the shared state\<close>

text \<open>
  \<open>capture_audio_loop\<close> enqueues dictionaries \<open>{"text": ..., "is_final": ...}\<close>;
  \<open>translate_loop\<close> adds the key \<open>"translated_text"\<close> before it forwards them.
  The key \<open>"text"\<close> is the field \<open>item_text\<close>.
\<close>

record item =
  item_text :: string
  is_final :: bool

record titem = item +
  translated_text :: string

text \<open>
  The dictionary \<open>state\<close> built by \<open>main\<close>. Both queues are created by \<open>Queue()\<close> with
  the default \<open>maxsize = 0\<close>: such a queue has no capacity limit and \<open>put\<close> never blocks,
  so a queue is the list of the items it holds, \<open>put\<close> appends at the back and \<open>get\<close>
  removes the front. \<open>label_text\<close> is the text last given to \<open>label.config\<close>.
\<close>

record state =
  running :: bool
  recognized_queue :: "item list"
  translated_queue :: "titem list"
  text_buffer :: string
  partial_text :: string
  label_text :: string

definition main_state :: state where
  \<comment> \<open>The state as \<open>main\<close> creates it (the label starts with \<open>text=""\<close>).\<close>
  "main_state = \<lparr>running = True, recognized_queue = [], translated_queue = [],
     text_buffer = [], partial_text = [], label_text = []\<rparr>"

subsection \<open>\<open>capture_audio_loop\<close>\<close>

text \<open>
  The audio device and the recogniser are external. What one pass of the loop body gets
  from them is either an exception (\<open>m.record\<close> or a later call raises) or the
  recogniser's answer: \<open>AcceptWaveform\<close> returned true and \<open>result.get("text", "")\<close>
  is the given string (\<open>Final\<close>), or it returned false and
  \<open>partial.get("partial", "")\<close> is the given string (\<open>Partial\<close>).
\<close>

datatype error = AudioError | TranslationError

datatype recognition = Final string | Partial string

datatype exit = Returned | Raised error

definition capture_frame :: "recognition \<Rightarrow> state \<Rightarrow> state" where
  \<comment> \<open>The loop body after the recogniser has answered.\<close>
  "capture_frame r st =
     (case r of
        Final raw \<Rightarrow>
          (let t = py_strip raw in
           if t \<noteq> []
           then st\<lparr>recognized_queue := recognized_queue st @ [\<lparr>item_text = t, is_final = True\<rparr>]\<rparr>
           else st)
      | Partial raw \<Rightarrow>
          (let t = py_strip raw in
           if t \<noteq> []
           then st\<lparr>recognized_queue := recognized_queue st @ [\<lparr>item_text = t, is_final = False\<rparr>]\<rparr>
           else st))"

fun capture_audio_loop :: "(error + recognition) list \<Rightarrow> state \<Rightarrow> exit option \<times> state" where
  \<comment> \<open>The thread's function run on the given passes of the loop body. \<open>Some Returned\<close>:
      the function has returned (the \<open>except\<close> clause swallows the exception, so it never
      ends by raising); \<open>None\<close>: the given passes are used up and the loop is still
      running.\<close>
  "capture_audio_loop [] st = (if running st then (None, st) else (Some Returned, st))"
| "capture_audio_loop (x # xs) st =
     (if \<not> running st then (Some Returned, st)
      else (case x of
              Inl e \<Rightarrow> (Some Returned, st\<lparr>running := False\<rparr>)
            | Inr r \<Rightarrow> capture_audio_loop xs (capture_frame r st)))"

subsection \<open>\<open>translate_loop\<close>\<close>

text \<open>
  The translator is external and may raise: it is a parameter of type
  \<open>string \<Rightarrow> error + string\<close>. \<open>translate_loop\<close> has no \<open>try\<close>: an exception of the
  translator leaves the function, after \<open>get\<close> has removed the item from the queue.
\<close>

definition translate_iter :: "(string \<Rightarrow> error + string) \<Rightarrow> state \<Rightarrow> (error \<times> state) + state" where
  \<comment> \<open>One pass of the body of \<open>while state["running"]\<close>.\<close>
  "translate_iter translator st =
     (case recognized_queue st of
        [] \<Rightarrow> Inr st
      | it # rest \<Rightarrow>
          (let st1 = st\<lparr>recognized_queue := rest\<rparr> in
           case translator (item_text it) of
             Inl e \<Rightarrow> Inl (e, st1)
           | Inr translated \<Rightarrow>
               Inr (st1\<lparr>translated_queue := translated_queue st1 @
                      [\<lparr>item_text = item_text it, is_final = is_final it,
                        translated_text = translated\<rparr>]\<rparr>)))"

fun translate_loop :: "nat \<Rightarrow> (string \<Rightarrow> error + string) \<Rightarrow> state \<Rightarrow> exit option \<times> state" where
  \<comment> \<open>The thread's function, run for at most the given number of passes. \<open>None\<close>: the loop
      is still running after them (alone, with \<open>running\<close> true and an empty queue, it
      spins).\<close>
  "translate_loop 0 translator st = (if running st then (None, st) else (Some Returned, st))"
| "translate_loop (Suc n) translator st =
     (if \<not> running st then (Some Returned, st)
      else (case translate_iter translator st of
              Inl (e, st') \<Rightarrow> (Some (Raised e), st')
            | Inr st' \<Rightarrow> translate_loop n translator st'))"

subsection \<open>\<open>update_gui\<close>\<close>

definition process_item :: "titem \<Rightarrow> state \<Rightarrow> state" where
  \<comment> \<open>The body of the \<open>while\<close> loop of \<open>update_gui\<close> for one dequeued item.\<close>
  "process_item it st =
     (let translated = translated_text it in
      if is_final it
      then st\<lparr>text_buffer := text_buffer st @ '' '' @ translated, partial_text := []\<rparr>
      else st\<lparr>partial_text := translated @ ''...''\<rparr>)"

function drain :: "state \<Rightarrow> state" where
  \<comment> \<open>\<open>while not translated_queue.empty(): item = translated_queue.get(); ...\<close>\<close>
  "drain st =
     (case translated_queue st of
        [] \<Rightarrow> st
      | it # rest \<Rightarrow> drain (process_item it (st\<lparr>translated_queue := rest\<rparr>)))"
  by pat_completeness auto
termination
  by (relation "measure (\<lambda>st. length (translated_queue st))")
     (auto simp: process_item_def Let_def)

declare drain.simps [simp del]

definition compose_display :: "state \<Rightarrow> string" where
  \<comment> \<open>\<open>display_text\<close> before it is trimmed.\<close>
  "compose_display st =
     (let display_text = py_strip (text_buffer st) in
      if partial_text st \<noteq> []
      then display_text @ [newline] @ py_strip (partial_text st)
      else display_text)"

definition update_gui :: "int \<Rightarrow> state \<Rightarrow> state" where
  \<comment> \<open>One call of \<open>update_gui\<close>; \<open>max_len\<close> is \<open>config.getint("Text", "max_buffer_length")\<close>.
      The call that re-schedules the function is not part of the state.\<close>
  "update_gui max_len st0 =
     (let st = drain st0;
          display_text = compose_display st
      in if max_len < int (length display_text)
         then (let display_text' = py_last max_len display_text;
                   st' = (if max_len < int (length (text_buffer st))
                          then st\<lparr>text_buffer := py_last max_len (text_buffer st)\<rparr>
                          else st)
               in st'\<lparr>label_text := display_text'\<rparr>)
         else st\<lparr>label_text := display_text\<rparr>)"

subsection \<open>The threads of \<open>main\<close>\<close>

text \<open>
  \<open>main\<close> starts \<open>capture_audio_loop\<close> and \<open>translate_loop\<close> in two threads, calls
  \<open>update_gui\<close> once and enters \<open>root.mainloop()\<close>, in which \<open>update_gui\<close> runs again
  whenever it has re-scheduled itself with \<open>root.after\<close>. When the main loop ends (the
  window is closed, or \<open>KeyboardInterrupt\<close>), the \<open>finally\<close> clause sets \<open>running\<close> to
  false and joins the two threads in turn.

  The threads share \<open>state\<close> and are interleaved. A step of a stage thread is one pass of
  its loop: the test of \<open>running\<close> and, when it is true, the loop body once. What the audio
  device and the recogniser deliver in a pass is not determined by the program, so every
  value of it gives a step. A step of the main thread is a call of \<open>update_gui\<close> by the
  main loop or one statement of the shutdown sequence; \<open>join\<close> can only be passed when
  the joined thread has finished. The first, direct call of \<open>update_gui\<close> is the first
  scheduled call.
\<close>

datatype thread = Started | Finished

datatype main_pc = InMainloop | AtFinally | JoinCapture | JoinTranslate | MainReturned

record system =
  shared :: state
  t_capture :: thread
  t_translate :: thread
  gui_scheduled :: bool
  main_pc :: main_pc

definition initial_system :: system where
  \<comment> \<open>After \<open>t_translate.start()\<close>.\<close>
  "initial_system = \<lparr>shared = main_state, t_capture = Started, t_translate = Started,
     gui_scheduled = True, main_pc = InMainloop\<rparr>"

definition thread_after :: "exit option \<Rightarrow> thread" where
  \<comment> \<open>A thread whose function has returned or raised has finished.\<close>
  "thread_after ex = (case ex of None \<Rightarrow> Started | Some _ \<Rightarrow> Finished)"

inductive capture_step :: "system \<Rightarrow> system \<Rightarrow> bool" where
  capture_pass:
    "t_capture s = Started \<Longrightarrow> capture_audio_loop [x] (shared s) = (ex, st') \<Longrightarrow>
     capture_step s (s\<lparr>shared := st', t_capture := thread_after ex\<rparr>)"

inductive translate_step :: "(string \<Rightarrow> error + string) \<Rightarrow> system \<Rightarrow> system \<Rightarrow> bool"
  for translator where
  translate_pass:
    "t_translate s = Started \<Longrightarrow> translate_loop (Suc 0) translator (shared s) = (ex, st') \<Longrightarrow>
     translate_step translator s (s\<lparr>shared := st', t_translate := thread_after ex\<rparr>)"

inductive main_step :: "int \<Rightarrow> system \<Rightarrow> system \<Rightarrow> bool" for max_len where
  gui_tick:
    "main_pc s = InMainloop \<Longrightarrow> gui_scheduled s \<Longrightarrow>
     main_step max_len s
       (s\<lparr>shared := update_gui max_len (shared s), gui_scheduled := running (shared s)\<rparr>)"
| mainloop_ends:
    "main_pc s = InMainloop \<Longrightarrow> main_step max_len s (s\<lparr>main_pc := AtFinally\<rparr>)"
| finally_clause:
    "main_pc s = AtFinally \<Longrightarrow>
     main_step max_len s (s\<lparr>shared := (shared s)\<lparr>running := False\<rparr>, main_pc := JoinCapture\<rparr>)"
| join_capture:
    "main_pc s = JoinCapture \<Longrightarrow> t_capture s = Finished \<Longrightarrow>
     main_step max_len s (s\<lparr>main_pc := JoinTranslate\<rparr>)"
| join_translate:
    "main_pc s = JoinTranslate \<Longrightarrow> t_translate s = Finished \<Longrightarrow>
     main_step max_len s (s\<lparr>main_pc := MainReturned\<rparr>)"

definition step :: "(string \<Rightarrow> error + string) \<Rightarrow> int \<Rightarrow> system \<Rightarrow> system \<Rightarrow> bool" where
  "step translator max_len s s' =
     (capture_step s s' \<or> translate_step translator s s' \<or> main_step max_len s s')"

definition reachable :: "(string \<Rightarrow> error + string) \<Rightarrow> int \<Rightarrow> system \<Rightarrow> bool" where
  "reachable translator max_len s = rtranclp (step translator max_len) initial_system s"

definition joined :: "system \<Rightarrow> bool" where
  \<comment> \<open>Where the main thread stands in the shutdown sequence, and what that says about
      the flag and the stage threads.\<close>
  "joined s =
     ((main_pc s = JoinCapture \<or> main_pc s = JoinTranslate \<or> main_pc s = MainReturned
         \<longrightarrow> \<not> running (shared s))
      \<and> (main_pc s = JoinTranslate \<or> main_pc s = MainReturned \<longrightarrow> t_capture s = Finished)
      \<and> (main_pc s = MainReturned \<longrightarrow> t_translate s = Finished))"

section \<open>The caption variants without translation\<close>

text \<open>
  The class \<open>SmoothCaptions\<close> of \<open>live_captions.py\<close> and of
  \<open>test/live_caption_optimised/live_caption.py\<close>: one queue of strings and one buffer.
  The attributes \<open>self.running\<close>, \<open>self.text_buffer\<close> and the label's text are the fields
  \<open>sc_running\<close>, \<open>sc_text_buffer\<close> and \<open>sc_label_text\<close>.
\<close>

record captions =
  sc_running :: bool
  transcript_queue :: "string list"
  sc_text_buffer :: string
  sc_label_text :: string




definition captions_update_gui :: "int \<Rightarrow> captions \<Rightarrow> captions" where
  \<comment> \<open>\<open>update_gui\<close> of \<open>live_captions.py\<close>; \<open>max_length\<close> is
      \<open>config.getint("Text", "max_buffer_length")\<close>. One item is taken per call.\<close>
  "captions_update_gui max_length st =
     (case transcript_queue st of
        [] \<Rightarrow> st
      | new_text # rest \<Rightarrow>
          (if py_contains ''...'' new_text
           then st\<lparr>transcript_queue := rest,
                   sc_label_text := py_last max_length (sc_text_buffer st @ '' '' @ new_text)\<rparr>
           else st\<lparr>transcript_queue := rest,
                   sc_text_buffer := sc_text_buffer st @ '' '' @ new_text,
                   sc_label_text := py_last max_length (sc_text_buffer st @ '' '' @ new_text)\<rparr>))"


section \<open>Basic facts\<close>

subsection \<open>Slices\<close>

lemma py_last_length: "0 < n \<Longrightarrow> int (length (py_last n s)) \<le> n"
  by (simp add: py_last_def)

lemma py_last_suffix: "suffix (py_last n s) s"
  by (simp add: py_last_def suffix_drop)

subsection \<open>The loop of \<open>update_gui\<close>\<close>

lemma process_item_fields [simp]:
  "running (process_item it st) = running st"
  "recognized_queue (process_item it st) = recognized_queue st"
  "translated_queue (process_item it st) = translated_queue st"
  "label_text (process_item it st) = label_text st"
  by (simp_all add: process_item_def Let_def)

lemma process_item_queue_update:
  "process_item it (st\<lparr>translated_queue := q\<rparr>) = (process_item it st)\<lparr>translated_queue := q\<rparr>"
  by (simp add: process_item_def Let_def)

lemma drain_Nil: "translated_queue st = [] \<Longrightarrow> drain st = st"
  by (subst drain.simps) simp

lemma drain_Cons:
  "translated_queue st = it # rest \<Longrightarrow>
   drain st = drain (process_item it (st\<lparr>translated_queue := rest\<rparr>))"
  by (subst drain.simps) simp

text \<open>The loop handles the queued items front to back and leaves the queue empty.\<close>

lemma drain_foldl:
  "drain st = foldl (\<lambda>s it. process_item it s) (st\<lparr>translated_queue := []\<rparr>) (translated_queue st)"
proof (induction "translated_queue st" arbitrary: st)
  case Nil
  then show ?case by (simp add: drain_Nil)
next
  case (Cons it rest)
  from Cons.hyps(2) have q: "translated_queue st = it # rest" by simp
  have "rest = translated_queue (process_item it (st\<lparr>translated_queue := rest\<rparr>))" by simp
  from Cons.hyps(1)[OF this] q show ?case
    by (simp add: drain_Cons process_item_queue_update)
qed

lemma foldl_text_buffer:
  "text_buffer (foldl (\<lambda>s it. process_item it s) st its) =
   text_buffer st @ concat (map (\<lambda>it. '' '' @ translated_text it) (filter is_final its))"
  by (induction its arbitrary: st) (simp_all add: process_item_def Let_def)

lemma foldl_fields [simp]:
  "translated_queue (foldl (\<lambda>s it. process_item it s) st its) = translated_queue st"
  "running (foldl (\<lambda>s it. process_item it s) st its) = running st"
  "recognized_queue (foldl (\<lambda>s it. process_item it s) st its) = recognized_queue st"
  "label_text (foldl (\<lambda>s it. process_item it s) st its) = label_text st"
  by (induction its arbitrary: st) simp_all

lemma foldl_queue_update:
  "foldl (\<lambda>s it. process_item it s) (st\<lparr>translated_queue := q\<rparr>) its =
   (foldl (\<lambda>s it. process_item it s) st its)\<lparr>translated_queue := q\<rparr>"
  by (induction its arbitrary: st) (simp_all add: process_item_queue_update)

lemma drain_text_buffer:
  "text_buffer (drain st) =
   text_buffer st @ concat (map (\<lambda>it. '' '' @ translated_text it) (filter is_final (translated_queue st)))"
  by (simp add: drain_foldl foldl_text_buffer)

lemma drain_fields [simp]:
  "translated_queue (drain st) = []"
  "running (drain st) = running st"
  "recognized_queue (drain st) = recognized_queue st"
  "label_text (drain st) = label_text st"
  by (simp_all add: drain_foldl)

lemma drain_snoc:
  "drain (st\<lparr>translated_queue := its @ [it]\<rparr>) =
   process_item it (drain (st\<lparr>translated_queue := its\<rparr>))"
  by (simp add: drain_foldl foldl_queue_update process_item_queue_update)

lemma update_gui_text_buffer_cases:
  "text_buffer (update_gui max_len st) = text_buffer (drain st) \<or>
   text_buffer (update_gui max_len st) = py_last max_len (text_buffer (drain st))"
  by (simp add: update_gui_def Let_def)

lemma update_gui_partial_text: "partial_text (update_gui max_len st) = partial_text (drain st)"
  by (simp add: update_gui_def Let_def)

section \<open>Partial events\<close>

text \<open>
  Claim C1, as the code has it. A partial item (\<open>is_final\<close> false) sets \<open>partial_text\<close> to
  the item's translated text followed by the marker \<open>"..."\<close>; whatever was pending
  before is replaced, and \<open>text_buffer\<close> is not touched. When the last two queued items
  are partial, the pending text after the loop is the second item's text and the marker
  alone, the buffer is what the earlier items left, and the composed display is the
  stripped buffer, a line break and the stripped pending text.
\<close>

theorem partial_replaces_pending:
  "process_item \<lparr>item_text = t, is_final = False, translated_text = tr\<rparr> st =
     st\<lparr>partial_text := tr @ ''...''\<rparr>
   \<and> partial_text (drain (st\<lparr>translated_queue := its @
         [\<lparr>item_text = t1, is_final = False, translated_text = tr1\<rparr>,
          \<lparr>item_text = t2, is_final = False, translated_text = tr2\<rparr>]\<rparr>)) = tr2 @ ''...''
   \<and> text_buffer (drain (st\<lparr>translated_queue := its @
         [\<lparr>item_text = t1, is_final = False, translated_text = tr1\<rparr>,
          \<lparr>item_text = t2, is_final = False, translated_text = tr2\<rparr>]\<rparr>)) =
       text_buffer (drain (st\<lparr>translated_queue := its\<rparr>))
   \<and> compose_display (drain (st\<lparr>translated_queue := its @
         [\<lparr>item_text = t1, is_final = False, translated_text = tr1\<rparr>,
          \<lparr>item_text = t2, is_final = False, translated_text = tr2\<rparr>]\<rparr>)) =
       py_strip (text_buffer (drain (st\<lparr>translated_queue := its\<rparr>))) @ [newline] @
       py_strip (tr2 @ ''...'')"
proof -
  let ?p1 = "\<lparr>item_text = t1, is_final = False, translated_text = tr1\<rparr>"
  let ?p2 = "\<lparr>item_text = t2, is_final = False, translated_text = tr2\<rparr>"
  have two: "drain (st\<lparr>translated_queue := its @ [?p1, ?p2]\<rparr>) =
      process_item ?p2 (process_item ?p1 (drain (st\<lparr>translated_queue := its\<rparr>)))"
    using drain_snoc [where st = st and its = "its @ [?p1]" and it = ?p2]
      drain_snoc [where st = st and its = its and it = ?p1] by simp
  show ?thesis
    unfolding two by (simp add: process_item_def compose_display_def)
qed

text \<open>
  Claim C1, as stated, fails: the pending text is not exactly the event's text. For the
  partial event \<open>"hi"\<close> the code stores \<open>"hi..."\<close>.
\<close>

theorem partial_not_event_text:
  "partial_text (process_item \<lparr>item_text = ''hi'', is_final = False, translated_text = ''hi''\<rparr>
      main_state) = ''hi...''
   \<and> partial_text (process_item \<lparr>item_text = ''hi'', is_final = False, translated_text = ''hi''\<rparr>
      main_state) \<noteq> ''hi''"
  by (simp add: process_item_def main_state_def)

section \<open>Final events\<close>

text \<open>
  Claim C2. A final item appends the separator \<open>" "\<close> and the item's translated text to
  \<open>text_buffer\<close> and clears \<open>partial_text\<close>. Over a whole queue the loop appends exactly
  the final items, each once and in order, and leaves the queue empty. A call of
  \<open>update_gui\<close> takes every queued item off \<open>translated_queue\<close>; its \<open>text_buffer\<close> is the
  buffer with the final items appended, cut to its trailing \<open>max_buffer_length\<close>
  characters when both the composed display text and that buffer are longer, so it is a
  suffix of it. An item that has been handled is not handled again: on the state a call
  leaves, the loop changes nothing. After a call whose last queued item is final,
  \<open>partial_text\<close> is empty.
\<close>

theorem final_appends_once:
  "process_item \<lparr>item_text = t, is_final = True, translated_text = tr\<rparr> st =
     st\<lparr>text_buffer := text_buffer st @ '' '' @ tr, partial_text := []\<rparr>
   \<and> text_buffer (drain st) =
       text_buffer st @
       concat (map (\<lambda>it. '' '' @ translated_text it) (filter is_final (translated_queue st)))
   \<and> translated_queue (drain st) = []
   \<and> translated_queue (update_gui max_len st) = []
   \<and> text_buffer (update_gui max_len st) =
       (if max_len < int (length (compose_display (drain st))) \<and>
           max_len < int (length (text_buffer st @
             concat (map (\<lambda>it. '' '' @ translated_text it)
               (filter is_final (translated_queue st)))))
        then py_last max_len (text_buffer st @
             concat (map (\<lambda>it. '' '' @ translated_text it)
               (filter is_final (translated_queue st))))
        else text_buffer st @
             concat (map (\<lambda>it. '' '' @ translated_text it)
               (filter is_final (translated_queue st))))
   \<and> drain (update_gui max_len st) = update_gui max_len st
   \<and> suffix (text_buffer (update_gui max_len st))
       (text_buffer st @
        concat (map (\<lambda>it. '' '' @ translated_text it) (filter is_final (translated_queue st))))
   \<and> partial_text (update_gui max_len
         (st\<lparr>translated_queue := its @
            [\<lparr>item_text = t, is_final = True, translated_text = tr\<rparr>]\<rparr>)) = []"
proof -
  let ?B = "text_buffer st @
    concat (map (\<lambda>it. '' '' @ translated_text it) (filter is_final (translated_queue st)))"
  have a: "process_item \<lparr>item_text = t, is_final = True, translated_text = tr\<rparr> st =
     st\<lparr>text_buffer := text_buffer st @ '' '' @ tr, partial_text := []\<rparr>"
    by (simp add: process_item_def)
  have b: "text_buffer (drain st) = ?B"
    by (rule drain_text_buffer)
  have q: "translated_queue (update_gui max_len st) = []"
    by (simp add: update_gui_def Let_def)
  have e: "text_buffer (update_gui max_len st) =
       (if max_len < int (length (compose_display (drain st))) \<and> max_len < int (length ?B)
        then py_last max_len ?B else ?B)"
    unfolding b [symmetric] by (simp add: update_gui_def Let_def)
  have again: "drain (update_gui max_len st) = update_gui max_len st"
    using q by (rule drain_Nil)
  have c: "suffix (text_buffer (update_gui max_len st)) ?B"
    unfolding e using py_last_suffix [of max_len ?B] by simp
  have d: "partial_text (update_gui max_len
         (st\<lparr>translated_queue := its @
            [\<lparr>item_text = t, is_final = True, translated_text = tr\<rparr>]\<rparr>)) = []"
    by (simp add: update_gui_partial_text drain_snoc process_item_def)
  have dq: "translated_queue (drain st) = []" by simp
  from a b dq q e again c d show ?thesis by blast
qed

section \<open>Scenario B\<close>

text \<open>
  Claim C4, as the code has it. With \<open>max_buffer_length = 10\<close>, \<open>text_buffer\<close> equal to
  \<open>"abcdefghij"\<close> and the final item \<open>"klm"\<close> queued, \<open>update_gui\<close> leaves
  \<open>"efghij klm"\<close> in \<open>text_buffer\<close> and on the label: the last 10 characters of
  \<open>"abcdefghij klm"\<close>, the separator included.
\<close>

theorem scenario_B_keeps_separator:
  "text_buffer (update_gui 10 (main_state\<lparr>text_buffer := ''abcdefghij'',
      translated_queue := [\<lparr>item_text = ''klm'', is_final = True, translated_text = ''klm''\<rparr>]\<rparr>))
   = ''efghij klm''
   \<and> ''efghij klm'' = py_last 10 (''abcdefghij'' @ '' '' @ ''klm'')
   \<and> label_text (update_gui 10 (main_state\<lparr>text_buffer := ''abcdefghij'',
      translated_queue := [\<lparr>item_text = ''klm'', is_final = True, translated_text = ''klm''\<rparr>]\<rparr>))
   = ''efghij klm''"
  by code_simp

text \<open>
  Claim C4, as stated, fails: the buffer does not become \<open>"defghijklm"\<close>.
\<close>

theorem scenario_B_not_defghijklm:
  "text_buffer (update_gui 10 (main_state\<lparr>text_buffer := ''abcdefghij'',
      translated_queue := [\<lparr>item_text = ''klm'', is_final = True, translated_text = ''klm''\<rparr>]\<rparr>))
   \<noteq> ''defghijklm''"
  by code_simp


lemma py_strip_length: "length (py_strip s) \<le> length s"
proof -
  have "length (py_strip s) \<le> length (py_lstrip s)"
    unfolding py_strip_def py_rstrip_def
    using length_dropWhile_le [of py_isspace "rev (py_lstrip s)"] by simp
  also have "\<dots> \<le> length s"
    unfolding py_lstrip_def by (rule length_dropWhile_le)
  finally show ?thesis .
qed

lemma compose_display_length: "length (py_strip (text_buffer st)) \<le> length (compose_display st)"
  by (simp add: compose_display_def Let_def)

lemma update_gui_label:
  "label_text (update_gui max_len st) =
     (if max_len < int (length (compose_display (drain st)))
      then py_last max_len (compose_display (drain st))
      else compose_display (drain st))"
  by (simp add: update_gui_def Let_def)

lemma update_gui_text_buffer:
  "text_buffer (update_gui max_len st) =
     (if max_len < int (length (compose_display (drain st))) \<and>
         max_len < int (length (text_buffer (drain st)))
      then py_last max_len (text_buffer (drain st))
      else text_buffer (drain st))"
  by (simp add: update_gui_def Let_def)

lemma update_gui_label_bound:
  assumes "0 < max_len"
  shows "int (length (label_text (update_gui max_len st))) \<le> max_len"
  using assms py_last_length [of max_len "compose_display (drain st)"]
  by (simp add: update_gui_label)

lemma update_gui_stripped_bound:
  assumes "0 < max_len"
  shows "int (length (py_strip (text_buffer (update_gui max_len st)))) \<le> max_len"
proof (cases "max_len < int (length (compose_display (drain st)))")
  case False
  with compose_display_length [of "drain st"] show ?thesis
    by (simp add: update_gui_text_buffer)
next
  case long: True
  show ?thesis
  proof (cases "max_len < int (length (text_buffer (drain st)))")
    case True
    with long have "text_buffer (update_gui max_len st) = py_last max_len (text_buffer (drain st))"
      by (simp add: update_gui_text_buffer)
    with py_last_length [OF assms, of "text_buffer (drain st)"]
      py_strip_length [of "py_last max_len (text_buffer (drain st))"]
    show ?thesis by simp
  next
    case False
    with py_strip_length [of "text_buffer (drain st)"] show ?thesis
      by (simp add: update_gui_text_buffer)
  qed
qed

lemma captions_update_gui_buffer:
  "transcript_queue st = new_text # rest \<Longrightarrow>
   sc_text_buffer (captions_update_gui max_length st) =
     (if py_contains ''...'' new_text then sc_text_buffer st
      else sc_text_buffer st @ '' '' @ new_text)"
  by (simp add: captions_update_gui_def)

lemma captions_update_gui_label:
  "transcript_queue st = new_text # rest \<Longrightarrow>
   sc_label_text (captions_update_gui max_length st) =
     py_last max_length (sc_text_buffer st @ '' '' @ new_text)"
  by (simp add: captions_update_gui_def)

section \<open>The sliding window\<close>

text \<open>
  Claim C3, as the code has it. For a positive \<open>max_buffer_length\<close>, after every call of
  \<open>update_gui\<close> the text on the label is at most \<open>max_buffer_length\<close> characters long, and
  so is the stripped \<open>text_buffer\<close> (the committed text as it is displayed). The label
  shows the composed text, cut to its trailing \<open>max_buffer_length\<close> characters when it is
  longer; \<open>text_buffer\<close> is cut to its trailing \<open>max_buffer_length\<close> characters when both
  the composed text and the buffer are longer, and is otherwise left as the loop built
  it; what is cut is cut from the front. In \<open>live_captions.py\<close> only the displayed text is
  cut, to the trailing \<open>max_buffer_length\<close> characters of the buffer and the new item;
  \<open>text_buffer\<close> itself only grows.
\<close>

theorem window_bounds:
  "0 < max_len \<Longrightarrow>
     int (length (label_text (update_gui max_len st))) \<le> max_len
   \<and> int (length (py_strip (text_buffer (update_gui max_len st)))) \<le> max_len
   \<and> label_text (update_gui max_len st) =
       (if max_len < int (length (compose_display (drain st)))
        then py_last max_len (compose_display (drain st))
        else compose_display (drain st))
   \<and> text_buffer (update_gui max_len st) =
       (if max_len < int (length (compose_display (drain st))) \<and>
           max_len < int (length (text_buffer (drain st)))
        then py_last max_len (text_buffer (drain st))
        else text_buffer (drain st))
   \<and> suffix (text_buffer (update_gui max_len st)) (text_buffer (drain st))
   \<and> sc_label_text (captions_update_gui max_len (cs\<lparr>transcript_queue := new_text # rest\<rparr>)) =
       py_last max_len (sc_text_buffer cs @ '' '' @ new_text)
   \<and> int (length (sc_label_text
         (captions_update_gui max_len (cs\<lparr>transcript_queue := new_text # rest\<rparr>)))) \<le> max_len
   \<and> prefix (sc_text_buffer cs)
         (sc_text_buffer (captions_update_gui max_len (cs\<lparr>transcript_queue := new_text # rest\<rparr>)))"
proof -
  assume pos: "0 < max_len"
  let ?cs = "cs\<lparr>transcript_queue := new_text # rest\<rparr>"
  have q: "transcript_queue ?cs = new_text # rest" by simp
  have s: "suffix (text_buffer (update_gui max_len st)) (text_buffer (drain st))"
    using py_last_suffix [of max_len "text_buffer (drain st)"]
    by (simp add: update_gui_text_buffer)
  have l: "int (length (sc_label_text (captions_update_gui max_len ?cs))) \<le> max_len"
    using py_last_length [OF pos] by (simp add: captions_update_gui_label [OF q])
  have p: "prefix (sc_text_buffer cs) (sc_text_buffer (captions_update_gui max_len ?cs))"
    by (simp add: captions_update_gui_buffer [OF q])
  show ?thesis
    using update_gui_label_bound [OF pos, of st] update_gui_stripped_bound [OF pos, of st]
      update_gui_label [of max_len st] update_gui_text_buffer [of max_len st]
      captions_update_gui_label [OF q, of max_len] s l p
    by simp
qed


text \<open>The bounds of claim C3 at \<open>max_buffer_length = 5\<close>.\<close>

theorem window_bounds_witness:
  "(0::int) < 5
   \<and> int (length (label_text (update_gui 5 (main_state\<lparr>text_buffer := ''abc'',
       translated_queue := [\<lparr>item_text = ''defg'', is_final = True, translated_text = ''defg''\<rparr>]\<rparr>)))) \<le> 5
   \<and> int (length (py_strip (text_buffer (update_gui 5 (main_state\<lparr>text_buffer := ''abc'',
       translated_queue := [\<lparr>item_text = ''defg'', is_final = True, translated_text = ''defg''\<rparr>]\<rparr>))))) \<le> 5
   \<and> int (length (sc_label_text (captions_update_gui 5
        (\<lparr>sc_running = True, transcript_queue = [], sc_text_buffer = ''abcdefghij'',
          sc_label_text = ''abcdefghij''\<rparr>\<lparr>transcript_queue := [''KLM'']\<rparr>)))) \<le> 5"
proof -
  have pos: "(0::int) < 5" by simp
  from window_bounds [OF pos, where st = "main_state\<lparr>text_buffer := ''abc'',
       translated_queue := [\<lparr>item_text = ''defg'', is_final = True, translated_text = ''defg''\<rparr>]\<rparr>"
       and cs = "\<lparr>sc_running = True, transcript_queue = [], sc_text_buffer = ''abcdefghij'',
         sc_label_text = ''abcdefghij''\<rparr>" and new_text = "''KLM''" and rest = "[]"]
  show ?thesis using pos by blast
qed

text \<open>
  Claim C3, as stated, fails: the buffer itself can be longer than \<open>max_buffer_length\<close>.
  In \<open>live_captions.py\<close> the buffer is never cut: with the bound 10 and the buffer
  \<open>"abcdefghij"\<close> the item \<open>"KLM"\<close> leaves 14 characters in it. In \<open>live_translate.py\<close>
  the final item \<open>"abcde"\<close> on an empty buffer with the bound 5 leaves the 6 characters
  \<open>" abcde"\<close>: the stripped text fits, so nothing is cut.
\<close>

theorem buffer_exceeds_max:
  "int (length (text_buffer (update_gui 5 (main_state\<lparr>translated_queue :=
      [\<lparr>item_text = ''abcde'', is_final = True, translated_text = ''abcde''\<rparr>]\<rparr>)))) = 6
   \<and> int (length (sc_text_buffer (captions_update_gui 10
        \<lparr>sc_running = True, transcript_queue = [''KLM''], sc_text_buffer = ''abcdefghij'',
         sc_label_text = ''abcdefghij''\<rparr>))) = 14"
  by code_simp

lemma translate_iter_raises:
  "translator (item_text it) = Inl e \<Longrightarrow>
   translate_iter translator (st\<lparr>recognized_queue := it # rest\<rparr>) =
     Inl (e, st\<lparr>recognized_queue := rest\<rparr>)"
  by (simp add: translate_iter_def Let_def)

lemma translate_iter_returns:
  "translator (item_text it) = Inr tr \<Longrightarrow>
   translate_iter translator (st\<lparr>recognized_queue := it # rest\<rparr>) =
     Inr (st\<lparr>recognized_queue := rest, translated_queue := translated_queue st @
        [\<lparr>item_text = item_text it, is_final = is_final it, translated_text = tr\<rparr>]\<rparr>)"
  by (simp add: translate_iter_def Let_def)

section \<open>A translator that raises\<close>

text \<open>
  Claim C5, as the code has it. When the translator raises for the item at the front of
  \<open>recognized_queue\<close>, \<open>translate_loop\<close> ends with that exception: the item has been
  removed from the queue, nothing is put on \<open>translated_queue\<close>, and \<open>running\<close> is left as
  it was. When the translator returns, the item is forwarded at the back of
  \<open>translated_queue\<close> with the translator's result as \<open>translated_text\<close> and with its
  \<open>is_final\<close> flag unchanged.
\<close>

theorem translator_failure_ends_stage:
  "(running st \<and> translator (item_text it) = Inl e \<longrightarrow>
      translate_loop (Suc n) translator (st\<lparr>recognized_queue := it # rest\<rparr>) =
        (Some (Raised e), st\<lparr>recognized_queue := rest\<rparr>))
   \<and> (translator (item_text it) = Inr tr \<longrightarrow>
      translate_iter translator (st\<lparr>recognized_queue := it # rest\<rparr>) =
        Inr (st\<lparr>recognized_queue := rest, translated_queue := translated_queue st @
          [\<lparr>item_text = item_text it, is_final = is_final it, translated_text = tr\<rparr>]\<rparr>))"
  by (simp add: translate_iter_raises translate_iter_returns)

text \<open>Claim C5 for a translator that raises on \<open>"bonjour"\<close> and returns every other text.\<close>

theorem translator_failure_ends_stage_witness:
  "translate_loop (Suc 0) (\<lambda>t. if t = ''bonjour'' then Inl TranslationError else Inr t)
     (main_state\<lparr>recognized_queue := [\<lparr>item_text = ''bonjour'', is_final = True\<rparr>,
                                       \<lparr>item_text = ''salut'', is_final = True\<rparr>]\<rparr>) =
     (Some (Raised TranslationError),
      main_state\<lparr>recognized_queue := [\<lparr>item_text = ''salut'', is_final = True\<rparr>]\<rparr>)
   \<and> translate_iter (\<lambda>t. if t = ''bonjour'' then Inl TranslationError else Inr t)
     (main_state\<lparr>recognized_queue := [\<lparr>item_text = ''salut'', is_final = True\<rparr>]\<rparr>) =
     Inr (main_state\<lparr>recognized_queue := [], translated_queue := 
          [\<lparr>item_text = ''salut'', is_final = True, translated_text = ''salut''\<rparr>]\<rparr>)"
  using translator_failure_ends_stage [where st = main_state
      and translator = "\<lambda>t. if t = ''bonjour'' then Inl TranslationError else Inr t"
      and it = "\<lparr>item_text = ''bonjour'', is_final = True\<rparr>" and e = TranslationError and n = 0
      and rest = "[\<lparr>item_text = ''salut'', is_final = True\<rparr>]" and tr = "''x''"]
    translator_failure_ends_stage [where st = main_state
      and translator = "\<lambda>t. if t = ''bonjour'' then Inl TranslationError else Inr t"
      and it = "\<lparr>item_text = ''salut'', is_final = True\<rparr>" and e = TranslationError and n = 0
      and rest = "[]" and tr = "''salut''"]
  by (simp add: main_state_def)

text \<open>
  Claim C5, as stated, fails (scenario C): when the translator raises for the final event
  \<open>"bonjour"\<close>, no translated event is emitted and the translation thread ends.
\<close>

theorem failed_translation_emits_nothing:
  "translate_loop (Suc 0) (\<lambda>t. Inl TranslationError)
     (main_state\<lparr>recognized_queue := [\<lparr>item_text = ''bonjour'', is_final = True\<rparr>]\<rparr>) =
   (Some (Raised TranslationError), main_state)
   \<and> translated_queue main_state = []"
  by (simp add: translate_iter_def main_state_def)


lemma py_rstrip_append_space: "py_rstrip (s @ '' '') = py_rstrip s"
  by (simp add: py_rstrip_def py_isspace_def)

lemma py_strip_append_space: "py_strip (s @ '' '') = py_strip s"
proof (cases "\<forall>c \<in> set s. py_isspace c")
  case True
  then have "py_lstrip (s @ '' '') = []" "py_lstrip s = []"
    by (simp_all add: py_lstrip_def py_isspace_def)
  then show ?thesis by (simp add: py_strip_def)
next
  case False
  then obtain c where "c \<in> set s" "\<not> py_isspace c" by blast
  then have "py_lstrip (s @ '' '') = py_lstrip s @ '' ''"
    unfolding py_lstrip_def by (rule dropWhile_append1)
  then show ?thesis by (simp add: py_strip_def py_rstrip_append_space)
qed

lemma capture_frame_new_items:
  "it \<in> set (recognized_queue (capture_frame r st)) \<Longrightarrow>
   it \<in> set (recognized_queue st) \<or> item_text it \<noteq> []"
  by (cases r) (auto simp: capture_frame_def Let_def split: if_splits)

section \<open>Empty results\<close>

text \<open>
  Claim C7, as the code has it. A recogniser result that is empty after \<open>strip\<close>, final or
  partial, is dropped by the capture loop: nothing is enqueued and the state is unchanged,
  so every item the capture loop enqueues has a non-empty text. \<open>update_gui\<close> has no such
  guard: a final item whose translated text is empty appends the separator to
  \<open>text_buffer\<close> (the stripped buffer stays the same) and clears \<open>partial_text\<close>, and a
  partial item whose translated text is empty sets \<open>partial_text\<close> to the marker \<open>"..."\<close>.
\<close>

theorem empty_result_suppressed:
  "(py_strip raw = [] \<longrightarrow>
      capture_frame (Final raw) st = st \<and> capture_frame (Partial raw) st = st)
   \<and> (\<forall>it \<in> set (recognized_queue (capture_frame r st)).
        it \<in> set (recognized_queue st) \<or> item_text it \<noteq> [])
   \<and> process_item \<lparr>item_text = t, is_final = True, translated_text = []\<rparr> ds =
       ds\<lparr>text_buffer := text_buffer ds @ '' '', partial_text := []\<rparr>
   \<and> py_strip (text_buffer (process_item \<lparr>item_text = t, is_final = True, translated_text = []\<rparr> ds)) =
       py_strip (text_buffer ds)
   \<and> process_item \<lparr>item_text = t, is_final = False, translated_text = []\<rparr> ds =
       ds\<lparr>partial_text := ''...''\<rparr>"
proof -
  have a: "py_strip raw = [] \<longrightarrow>
      capture_frame (Final raw) st = st \<and> capture_frame (Partial raw) st = st"
    by (simp add: capture_frame_def)
  have b: "\<forall>it \<in> set (recognized_queue (capture_frame r st)).
        it \<in> set (recognized_queue st) \<or> item_text it \<noteq> []"
    using capture_frame_new_items by blast
  have c: "process_item \<lparr>item_text = t, is_final = True, translated_text = []\<rparr> ds =
       ds\<lparr>text_buffer := text_buffer ds @ '' '', partial_text := []\<rparr>"
    by (simp add: process_item_def)
  have d: "process_item \<lparr>item_text = t, is_final = False, translated_text = []\<rparr> ds =
       ds\<lparr>partial_text := ''...''\<rparr>"
    by (simp add: process_item_def)
  from a b c d show ?thesis
    using py_strip_append_space [of "text_buffer ds"] by simp
qed

text \<open>Claim C7 for the blank result \<open>"  "\<close> and the result \<open>" hi "\<close>.\<close>

theorem empty_result_suppressed_witness:
  "py_strip ''  '' = []
   \<and> capture_frame (Final ''  '') main_state = main_state
   \<and> capture_frame (Partial ''  '') main_state = main_state
   \<and> item_text \<lparr>item_text = ''hi'', is_final = True\<rparr> \<noteq> []
   \<and> recognized_queue (capture_frame (Final '' hi '') main_state) =
       [\<lparr>item_text = ''hi'', is_final = True\<rparr>]"
proof -
  have e: "py_strip ''  '' = []"
    by (simp add: py_strip_def py_lstrip_def py_rstrip_def py_isspace_def)
  have q: "recognized_queue (capture_frame (Final '' hi '') main_state) =
       [\<lparr>item_text = ''hi'', is_final = True\<rparr>]"
    by (simp add: capture_frame_def main_state_def py_strip_def py_lstrip_def py_rstrip_def
        py_isspace_def)
  from empty_result_suppressed [where raw = "''  ''" and st = main_state
      and r = "Final '' hi ''" and ds = main_state and t = "[]"] e q
  show ?thesis by (simp add: main_state_def)
qed

text \<open>
  Claim C7, as stated, fails: an item with an empty text that reaches \<open>update_gui\<close>
  changes the display state. A final one turns the buffer \<open>""\<close> into \<open>" "\<close> and clears the
  pending text \<open>"hello..."\<close>; a partial one turns the pending text \<open>""\<close> into \<open>"..."\<close>.
\<close>

theorem empty_event_changes_display_state:
  "text_buffer (process_item \<lparr>item_text = [], is_final = True, translated_text = []\<rparr>
      (main_state\<lparr>partial_text := ''hello...''\<rparr>)) = '' ''
   \<and> partial_text (process_item \<lparr>item_text = [], is_final = True, translated_text = []\<rparr>
      (main_state\<lparr>partial_text := ''hello...''\<rparr>)) = []
   \<and> partial_text (process_item \<lparr>item_text = [], is_final = False, translated_text = []\<rparr>
      main_state) = ''...''
   \<and> text_buffer main_state = [] \<and> partial_text main_state = []"
  by (simp add: process_item_def main_state_def)

lemma capture_frame_queue:
  "prefix (recognized_queue st) (recognized_queue (capture_frame r st)) \<and>
   length (recognized_queue (capture_frame r st)) \<le> Suc (length (recognized_queue st))"
  by (cases r) (simp_all add: capture_frame_def Let_def)

lemma translate_loop_all:
  "running st \<Longrightarrow> length (recognized_queue st) \<le> n \<Longrightarrow>
   snd (translate_loop n (\<lambda>t. Inr (f t)) st) =
     st\<lparr>recognized_queue := [],
        translated_queue := translated_queue st @
          map (\<lambda>it. \<lparr>item_text = item_text it, is_final = is_final it,
                      translated_text = f (item_text it)\<rparr>) (recognized_queue st)\<rparr>"
proof (induction n arbitrary: st)
  case 0
  then show ?case by simp
next
  case (Suc n)
  show ?case
  proof (cases "recognized_queue st")
    case Nil
    with Suc.prems have "translate_iter (\<lambda>t. Inr (f t)) st = Inr st"
      by (simp add: translate_iter_def)
    with Suc.prems Nil Suc.IH [of st] show ?thesis by simp
  next
    case (Cons it rest)
    let ?st' = "st\<lparr>recognized_queue := rest, translated_queue := translated_queue st @
        [\<lparr>item_text = item_text it, is_final = is_final it, translated_text = f (item_text it)\<rparr>]\<rparr>"
    from Cons have "translate_iter (\<lambda>t. Inr (f t)) st = Inr ?st'"
      by (simp add: translate_iter_def Let_def)
    moreover from Suc.prems Cons have "running ?st'" "length (recognized_queue ?st') \<le> n"
      by simp_all
    ultimately show ?thesis
      using Suc.prems Cons Suc.IH [of ?st'] by simp
  qed
qed

lemma capture_audio_loop_partials:
  "running st \<Longrightarrow>
   recognized_queue (snd (capture_audio_loop (replicate n (Inr (Partial ''a''))) st)) =
     recognized_queue st @ replicate n \<lparr>item_text = ''a'', is_final = False\<rparr>"
proof (induction n arbitrary: st)
  case 0
  then show ?case by simp
next
  case (Suc n)
  have s: "py_strip ''a'' = ''a''"
    by (simp add: py_strip_def py_lstrip_def py_rstrip_def py_isspace_def)
  let ?st' = "capture_frame (Partial ''a'') st"
  have r: "running ?st'" using Suc.prems by (simp add: capture_frame_def s)
  have q: "recognized_queue ?st' = recognized_queue st @ [\<lparr>item_text = ''a'', is_final = False\<rparr>]"
    by (simp add: capture_frame_def s)
  from Suc.prems Suc.IH [OF r] q show ?case
    by (simp add: replicate_append_same)
qed

lemma main_state_partials_length:
  "length (recognized_queue
     (snd (capture_audio_loop (replicate n (Inr (Partial ''a''))) main_state))) = n"
proof -
  have "running main_state" "recognized_queue main_state = []"
    by (simp_all add: main_state_def)
  then show ?thesis
    by (simp add: capture_audio_loop_partials)
qed

section \<open>The queues\<close>

text \<open>
  Claim C8, as the code has it. One pass of the capture loop puts at most one item on
  \<open>recognized_queue\<close>, at the back. The queues keep the order: with a translator that
  always returns, the translation loop moves the items of \<open>recognized_queue\<close> to the back
  of \<open>translated_queue\<close> in their order, and \<open>update_gui\<close> handles \<open>translated_queue\<close>
  front to back. The queues have no capacity limit: \<open>k\<close> passes with a partial result
  leave \<open>k\<close> items on \<open>recognized_queue\<close>, for every \<open>k\<close>.
\<close>

theorem queues_fifo_unbounded:
  "prefix (recognized_queue st) (recognized_queue (capture_frame r st))
   \<and> length (recognized_queue (capture_frame r st)) \<le> Suc (length (recognized_queue st))
   \<and> (running ts \<and> length (recognized_queue ts) \<le> n \<longrightarrow>
        snd (translate_loop n (\<lambda>t. Inr (f t)) ts) =
          ts\<lparr>recognized_queue := [],
             translated_queue := translated_queue ts @
               map (\<lambda>it. \<lparr>item_text = item_text it, is_final = is_final it,
                           translated_text = f (item_text it)\<rparr>) (recognized_queue ts)\<rparr>)
   \<and> drain ds = foldl (\<lambda>s it. process_item it s) (ds\<lparr>translated_queue := []\<rparr>) (translated_queue ds)
   \<and> length (recognized_queue
        (snd (capture_audio_loop (replicate k (Inr (Partial ''a''))) main_state))) = k"
  using capture_frame_queue [of st r] translate_loop_all [of ts n f] drain_foldl [of ds]
    main_state_partials_length [of k]
  by blast

text \<open>Claim C8 for two queued items and three passes of the translation loop.\<close>

theorem queues_fifo_unbounded_witness:
  "running (main_state\<lparr>recognized_queue :=
       [\<lparr>item_text = ''a'', is_final = False\<rparr>, \<lparr>item_text = ''ab'', is_final = True\<rparr>]\<rparr>)
   \<and> snd (translate_loop 3 (\<lambda>t. Inr (t @ ''!''))
       (main_state\<lparr>recognized_queue :=
          [\<lparr>item_text = ''a'', is_final = False\<rparr>, \<lparr>item_text = ''ab'', is_final = True\<rparr>]\<rparr>)) =
     main_state\<lparr>translated_queue :=
       [\<lparr>item_text = ''a'', is_final = False, translated_text = ''a!''\<rparr>,
        \<lparr>item_text = ''ab'', is_final = True, translated_text = ''ab!''\<rparr>]\<rparr>"
  using queues_fifo_unbounded [where n = 3 and f = "\<lambda>t. t @ ''!''"
      and ts = "main_state\<lparr>recognized_queue :=
        [\<lparr>item_text = ''a'', is_final = False\<rparr>, \<lparr>item_text = ''ab'', is_final = True\<rparr>]\<rparr>"]
  by (simp add: main_state_def)

text \<open>
  Claim C8, as stated, fails: the queues are not bounded. No capacity limits the length
  of \<open>recognized_queue\<close>.
\<close>

theorem queue_has_no_capacity:
  "\<not> (\<exists>cap. \<forall>xs. length (recognized_queue (snd (capture_audio_loop xs main_state))) \<le> cap)"
proof
  assume "\<exists>cap. \<forall>xs. length (recognized_queue (snd (capture_audio_loop xs main_state))) \<le> cap"
  then obtain cap where
    b: "\<forall>xs. length (recognized_queue (snd (capture_audio_loop xs main_state))) \<le> cap" ..
  then have "length (recognized_queue
        (snd (capture_audio_loop (replicate (Suc cap) (Inr (Partial ''a''))) main_state))) \<le> cap"
    by blast
  then show False
    by (simp only: main_state_partials_length Suc_n_not_le_n)
qed









section \<open>The in-band marker of the caption variants\<close>




section \<open>Steps of the threads\<close>


lemma capture_frame_running [simp]: "running (capture_frame r st) = running st"
  by (cases r) (simp_all add: capture_frame_def Let_def)

lemma capture_audio_loop_single:
  "capture_audio_loop [x] st =
     (if \<not> running st then (Some Returned, st)
      else (case x of
              Inl e \<Rightarrow> (Some Returned, st\<lparr>running := False\<rparr>)
            | Inr r \<Rightarrow> (None, capture_frame r st)))"
  by (cases x) simp_all

lemma translate_iter_running:
  "translate_iter translator st = Inr st' \<Longrightarrow> running st' = running st"
  "translate_iter translator st = Inl (e, st') \<Longrightarrow> running st' = running st"
  by (auto simp: translate_iter_def Let_def split: list.splits sum.splits)

lemma translate_loop_single:
  "translate_loop (Suc 0) translator st =
     (if \<not> running st then (Some Returned, st)
      else (case translate_iter translator st of
              Inl (e, st') \<Rightarrow> (Some (Raised e), st')
            | Inr st' \<Rightarrow> (None, st')))"
  by (auto split: sum.splits dest: translate_iter_running)

lemma update_gui_running [simp]: "running (update_gui max_len st) = running st"
  by (simp add: update_gui_def Let_def)

lemma capture_step_iff:
  "capture_step s s' \<longleftrightarrow>
     t_capture s = Started \<and>
     (\<exists>x. s' = s\<lparr>shared := snd (capture_audio_loop [x] (shared s)),
                  t_capture := thread_after (fst (capture_audio_loop [x] (shared s)))\<rparr>)"
proof
  assume "capture_step s s'"
  then show "t_capture s = Started \<and>
     (\<exists>x. s' = s\<lparr>shared := snd (capture_audio_loop [x] (shared s)),
                  t_capture := thread_after (fst (capture_audio_loop [x] (shared s)))\<rparr>)"
  proof cases
    case (capture_pass x ex st')
    from capture_pass(3) have "fst (capture_audio_loop [x] (shared s)) = ex"
      "snd (capture_audio_loop [x] (shared s)) = st'" by simp_all
    with capture_pass(1,2) show ?thesis by blast
  qed
next
  assume r: "t_capture s = Started \<and>
     (\<exists>x. s' = s\<lparr>shared := snd (capture_audio_loop [x] (shared s)),
                  t_capture := thread_after (fst (capture_audio_loop [x] (shared s)))\<rparr>)"
  then obtain x where s': "s' = s\<lparr>shared := snd (capture_audio_loop [x] (shared s)),
                  t_capture := thread_after (fst (capture_audio_loop [x] (shared s)))\<rparr>"
    by blast
  have "capture_audio_loop [x] (shared s) =
      (fst (capture_audio_loop [x] (shared s)), snd (capture_audio_loop [x] (shared s)))"
    by simp
  from capture_pass [OF conjunct1 [OF r] this] s' show "capture_step s s'" by simp
qed

lemma translate_step_iff:
  "translate_step translator s s' \<longleftrightarrow>
     t_translate s = Started \<and>
     s' = s\<lparr>shared := snd (translate_loop (Suc 0) translator (shared s)),
            t_translate := thread_after (fst (translate_loop (Suc 0) translator (shared s)))\<rparr>"
proof
  assume "translate_step translator s s'"
  then show "t_translate s = Started \<and>
     s' = s\<lparr>shared := snd (translate_loop (Suc 0) translator (shared s)),
            t_translate := thread_after (fst (translate_loop (Suc 0) translator (shared s)))\<rparr>"
  proof cases
    case (translate_pass ex st')
    from translate_pass(3) have "fst (translate_loop (Suc 0) translator (shared s)) = ex"
      "snd (translate_loop (Suc 0) translator (shared s)) = st'" by simp_all
    with translate_pass(1,2) show ?thesis by blast
  qed
next
  assume r: "t_translate s = Started \<and>
     s' = s\<lparr>shared := snd (translate_loop (Suc 0) translator (shared s)),
            t_translate := thread_after (fst (translate_loop (Suc 0) translator (shared s)))\<rparr>"
  have "translate_loop (Suc 0) translator (shared s) =
      (fst (translate_loop (Suc 0) translator (shared s)),
       snd (translate_loop (Suc 0) translator (shared s)))"
    by simp
  from translate_pass [OF conjunct1 [OF r] this] r show "translate_step translator s s'" by simp
qed

lemma capture_raise_returns:
  "running st \<Longrightarrow> capture_audio_loop (Inl e # xs) st = (Some Returned, st\<lparr>running := False\<rparr>)"
  by simp

lemma capture_step_error:
  assumes "t_capture s = Started"
  shows "capture_step s (s\<lparr>shared := (shared s)\<lparr>running := False\<rparr>, t_capture := Finished\<rparr>)"
proof (cases "running (shared s)")
  case True
  then have "capture_audio_loop [Inl AudioError] (shared s) =
      (Some Returned, (shared s)\<lparr>running := False\<rparr>)" by simp
  from capture_pass [OF assms this] show ?thesis by (simp add: thread_after_def)
next
  case False
  then have "capture_audio_loop [Inl AudioError] (shared s) = (Some Returned, shared s)" by simp
  moreover from False have "(shared s)\<lparr>running := False\<rparr> = shared s"
    by (cases "shared s") simp
  ultimately show ?thesis
    using capture_pass [OF assms, of "Inl AudioError" "Some Returned" "shared s"]
    by (simp add: thread_after_def)
qed

lemma capture_step_flag_down:
  assumes "\<not> running (shared s)" and "t_capture s = Started"
  shows "capture_step s s' \<longleftrightarrow> s' = s\<lparr>t_capture := Finished\<rparr>"
  using assms by (simp add: capture_step_iff capture_audio_loop_single thread_after_def)

lemma translate_step_flag_down:
  assumes "\<not> running (shared s)" and "t_translate s = Started"
  shows "translate_step translator s s' \<longleftrightarrow> s' = s\<lparr>t_translate := Finished\<rparr>"
  using assms by (simp add: translate_step_iff thread_after_def)

lemma capture_finished_no_step: "t_capture s = Finished \<Longrightarrow> \<not> capture_step s s'"
  by (simp add: capture_step_iff)

lemma translate_finished_no_step: "t_translate s = Finished \<Longrightarrow> \<not> translate_step translator s s'"
  by (simp add: translate_step_iff)

lemma capture_step_running: "capture_step s s' \<Longrightarrow> running (shared s') \<Longrightarrow> running (shared s)"
  by (auto simp: capture_step_iff capture_audio_loop_single split: if_splits sum.splits)

lemma translate_step_running:
  "translate_step translator s s' \<Longrightarrow> running (shared s') \<Longrightarrow> running (shared s)"
  by (auto simp: translate_step_iff translate_loop_single
      split: if_splits sum.splits dest: translate_iter_running)

lemma main_step_running: "main_step max_len s s' \<Longrightarrow> running (shared s') \<Longrightarrow> running (shared s)"
  by (induction rule: main_step.induct) simp_all

lemma step_flag_stays_down:
  "step translator max_len s s' \<Longrightarrow> \<not> running (shared s) \<Longrightarrow> \<not> running (shared s')"
  unfolding step_def
  using capture_step_running translate_step_running main_step_running by blast


lemma joined_initial: "joined initial_system"
  by (simp add: joined_def initial_system_def)

lemma capture_step_frame:
  "capture_step s s' \<Longrightarrow>
   main_pc s' = main_pc s \<and> t_translate s' = t_translate s \<and> gui_scheduled s' = gui_scheduled s"
  by (auto simp: capture_step_iff)

lemma translate_step_frame:
  "translate_step translator s s' \<Longrightarrow>
   main_pc s' = main_pc s \<and> t_capture s' = t_capture s \<and> gui_scheduled s' = gui_scheduled s"
  by (auto simp: translate_step_iff)

lemma main_step_frame:
  "main_step max_len s s' \<Longrightarrow> t_capture s' = t_capture s \<and> t_translate s' = t_translate s"
  by (induction rule: main_step.induct) simp_all

lemma joined_capture_step:
  assumes "capture_step s s'" and "joined s"
  shows "joined s'"
proof -
  from assms(1) have started: "t_capture s = Started" by (simp add: capture_step_iff)
  with assms(2) have pc: "main_pc s \<noteq> JoinTranslate" "main_pc s \<noteq> MainReturned"
    by (auto simp: joined_def)
  from capture_step_frame [OF assms(1)] capture_step_running [OF assms(1)] assms(2) pc
  show ?thesis by (auto simp: joined_def)
qed

lemma joined_translate_step:
  assumes "translate_step translator s s'" and "joined s"
  shows "joined s'"
proof -
  from assms(1) have started: "t_translate s = Started" by (simp add: translate_step_iff)
  with assms(2) have pc: "main_pc s \<noteq> MainReturned"
    by (auto simp: joined_def)
  from translate_step_frame [OF assms(1)] translate_step_running [OF assms(1)] assms(2) pc
  show ?thesis by (auto simp: joined_def)
qed

lemma joined_main_step:
  assumes "main_step max_len s s'" and "joined s"
  shows "joined s'"
  using assms by (induction rule: main_step.induct) (auto simp: joined_def)

lemma joined_step: "step translator max_len s s' \<Longrightarrow> joined s \<Longrightarrow> joined s'"
  unfolding step_def
  using joined_capture_step joined_translate_step joined_main_step by blast

lemma joined_reachable: "reachable translator max_len s \<Longrightarrow> joined s"
  unfolding reachable_def
  by (induction rule: rtranclp_induct) (auto intro: joined_initial joined_step)

lemma shutdown_from_join_translate:
  assumes "main_pc s = JoinTranslate" and "\<not> running (shared s)"
  shows "\<exists>s'. rtranclp (step translator max_len) s s' \<and> main_pc s' = MainReturned"
proof -
  let ?s1 = "s\<lparr>t_translate := Finished\<rparr>"
  let ?s2 = "?s1\<lparr>main_pc := MainReturned\<rparr>"
  have a: "rtranclp (step translator max_len) s ?s1"
  proof (cases "t_translate s")
    case Finished
    then have "?s1 = s" by (cases s) simp
    then show ?thesis by simp
  next
    case Started
    with assms(2) have "translate_step translator s ?s1"
      by (simp add: translate_step_flag_down)
    then have "step translator max_len s ?s1" by (simp add: step_def)
    then show ?thesis by (rule r_into_rtranclp)
  qed
  from assms(1) have "main_step max_len ?s1 ?s2"
    by (simp add: join_translate)
  then have "step translator max_len ?s1 ?s2" by (simp add: step_def)
  with a have "rtranclp (step translator max_len) s ?s2"
    by (rule rtranclp.rtrancl_into_rtrancl)
  moreover have "main_pc ?s2 = MainReturned" by simp
  ultimately show ?thesis by blast
qed


lemma shutdown_from_join_capture:
  assumes "main_pc s = JoinCapture" and "\<not> running (shared s)"
  shows "\<exists>s'. rtranclp (step translator max_len) s s' \<and> main_pc s' = MainReturned"
proof -
  let ?s1 = "s\<lparr>t_capture := Finished\<rparr>"
  let ?s2 = "?s1\<lparr>main_pc := JoinTranslate\<rparr>"
  have a: "rtranclp (step translator max_len) s ?s1"
  proof (cases "t_capture s")
    case Finished
    then have "?s1 = s" by (cases s) simp
    then show ?thesis by simp
  next
    case Started
    with assms(2) have "capture_step s ?s1"
      by (simp add: capture_step_flag_down)
    then have "step translator max_len s ?s1" by (simp add: step_def)
    then show ?thesis by (rule r_into_rtranclp)
  qed
  from assms(1) have "main_step max_len ?s1 ?s2"
    by (simp add: join_capture)
  then have "step translator max_len ?s1 ?s2" by (simp add: step_def)
  with a have b: "rtranclp (step translator max_len) s ?s2"
    by (rule rtranclp.rtrancl_into_rtrancl)
  from assms(2) have "main_pc ?s2 = JoinTranslate" "\<not> running (shared ?s2)" by simp_all
  from shutdown_from_join_translate [OF this, of translator max_len]
  obtain s' where "rtranclp (step translator max_len) ?s2 s'" "main_pc s' = MainReturned"
    by blast
  with b show ?thesis by (meson rtranclp_trans)
qed

lemma shutdown_from_finally:
  assumes "main_pc s = AtFinally"
  shows "\<exists>s'. rtranclp (step translator max_len) s s' \<and> main_pc s' = MainReturned"
proof -
  let ?s1 = "s\<lparr>shared := (shared s)\<lparr>running := False\<rparr>, main_pc := JoinCapture\<rparr>"
  from assms have "main_step max_len s ?s1" by (rule finally_clause)
  then have "step translator max_len s ?s1" by (simp add: step_def)
  then have a: "rtranclp (step translator max_len) s ?s1" by (rule r_into_rtranclp)
  have "main_pc ?s1 = JoinCapture" "\<not> running (shared ?s1)" by simp_all
  from shutdown_from_join_capture [OF this, of translator max_len]
  obtain s' where "rtranclp (step translator max_len) ?s1 s'" "main_pc s' = MainReturned"
    by blast
  with a show ?thesis by (meson rtranclp_trans)
qed

lemma shutdown_from_mainloop:
  assumes "main_pc s = InMainloop"
  shows "\<exists>s'. rtranclp (step translator max_len) s s' \<and> main_pc s' = MainReturned"
proof -
  let ?s1 = "s\<lparr>main_pc := AtFinally\<rparr>"
  from assms have "main_step max_len s ?s1" by (rule mainloop_ends)
  then have "step translator max_len s ?s1" by (simp add: step_def)
  then have a: "rtranclp (step translator max_len) s ?s1" by (rule r_into_rtranclp)
  have "main_pc ?s1 = AtFinally" by simp
  from shutdown_from_finally [OF this, of translator max_len]
  obtain s' where "rtranclp (step translator max_len) ?s1 s'" "main_pc s' = MainReturned"
    by blast
  with a show ?thesis by (meson rtranclp_trans)
qed

lemma shutdown_possible:
  assumes "reachable translator max_len s"
  shows "\<exists>s'. rtranclp (step translator max_len) s s' \<and> main_pc s' = MainReturned"
proof (cases "main_pc s")
  case InMainloop
  then show ?thesis by (rule shutdown_from_mainloop)
next
  case AtFinally
  then show ?thesis by (rule shutdown_from_finally)
next
  case JoinCapture
  moreover from joined_reachable [OF assms] JoinCapture have "\<not> running (shared s)"
    by (simp add: joined_def)
  ultimately show ?thesis by (rule shutdown_from_join_capture)
next
  case JoinTranslate
  moreover from joined_reachable [OF assms] JoinTranslate have "\<not> running (shared s)"
    by (simp add: joined_def)
  ultimately show ?thesis by (rule shutdown_from_join_translate)
next
  case MainReturned
  then show ?thesis by blast
qed

lemma gui_tick_flag_down:
  assumes "main_pc s = InMainloop" and "gui_scheduled s" and "\<not> running (shared s)"
  shows "main_step max_len s
     (s\<lparr>shared := update_gui max_len (shared s), gui_scheduled := False\<rparr>)"
  using gui_tick [OF assms(1,2), of max_len] assms(3) by simp


section \<open>Shutdown after an audio error\<close>

text \<open>
  Claim C6. When a pass of the capture loop raises (the read of the audio device fails),
  \<open>capture_audio_loop\<close> sets \<open>running\<close> to false and returns; the passes that would
  follow are not made, and a finished capture thread takes no further step. Once
  \<open>running\<close> is false it stays false. With \<open>running\<close> false the only step of the
  translation thread is to finish, and a call of \<open>update_gui\<close> does not re-schedule
  itself. In every reachable state in which \<open>main\<close> has returned, both stage threads have
  finished: \<open>main\<close> has joined them. From every reachable state the shutdown sequence
  can run to the end: no thread waits for another one for ever.
\<close>

theorem audio_error_shuts_down:
  "(running st \<longrightarrow>
      capture_audio_loop (Inl e # xs) st = (Some Returned, st\<lparr>running := False\<rparr>))
   \<and> (t_capture s = Started \<and> running (shared s) \<longrightarrow>
        capture_step s (s\<lparr>shared := (shared s)\<lparr>running := False\<rparr>, t_capture := Finished\<rparr>))
   \<and> (t_capture s = Finished \<longrightarrow> \<not> capture_step s s')
   \<and> (step translator max_len s s' \<and> \<not> running (shared s) \<longrightarrow> \<not> running (shared s'))
   \<and> (\<not> running (shared s) \<and> t_translate s = Started \<longrightarrow>
        (translate_step translator s s' \<longleftrightarrow> s' = s\<lparr>t_translate := Finished\<rparr>))
   \<and> (\<not> running (shared s) \<and> main_pc s = InMainloop \<and> gui_scheduled s \<longrightarrow>
        main_step max_len s
          (s\<lparr>shared := update_gui max_len (shared s), gui_scheduled := False\<rparr>))
   \<and> (reachable translator max_len s \<and> main_pc s = MainReturned \<longrightarrow>
        t_capture s = Finished \<and> t_translate s = Finished)
   \<and> (reachable translator max_len s \<longrightarrow>
        (\<exists>t. rtranclp (step translator max_len) s t \<and> main_pc t = MainReturned))"
proof -
  have a: "running st \<longrightarrow>
      capture_audio_loop (Inl e # xs) st = (Some Returned, st\<lparr>running := False\<rparr>)"
    by simp
  have b: "t_capture s = Started \<and> running (shared s) \<longrightarrow>
        capture_step s (s\<lparr>shared := (shared s)\<lparr>running := False\<rparr>, t_capture := Finished\<rparr>)"
    using capture_step_error by blast
  have c: "t_capture s = Finished \<longrightarrow> \<not> capture_step s s'"
    using capture_finished_no_step by blast
  have d: "step translator max_len s s' \<and> \<not> running (shared s) \<longrightarrow> \<not> running (shared s')"
    using step_flag_stays_down by blast
  have f: "\<not> running (shared s) \<and> t_translate s = Started \<longrightarrow>
        (translate_step translator s s' \<longleftrightarrow> s' = s\<lparr>t_translate := Finished\<rparr>)"
    using translate_step_flag_down by blast
  have g: "\<not> running (shared s) \<and> main_pc s = InMainloop \<and> gui_scheduled s \<longrightarrow>
        main_step max_len s
          (s\<lparr>shared := update_gui max_len (shared s), gui_scheduled := False\<rparr>)"
    using gui_tick_flag_down by blast
  have h: "reachable translator max_len s \<and> main_pc s = MainReturned \<longrightarrow>
        t_capture s = Finished \<and> t_translate s = Finished"
    using joined_reachable [of translator max_len s] by (auto simp: joined_def)
  have i: "reachable translator max_len s \<longrightarrow>
        (\<exists>t. rtranclp (step translator max_len) s t \<and> main_pc t = MainReturned)"
    using shutdown_possible by blast
  from a b c d f g h i show ?thesis by blast
qed

lemma reachable_step:
  "reachable translator max_len s \<Longrightarrow> step translator max_len s s' \<Longrightarrow>
   reachable translator max_len s'"
  unfolding reachable_def by (rule rtranclp.rtrancl_into_rtrancl)

lemma reachable_initial: "reachable translator max_len initial_system"
  by (simp add: reachable_def)

lemma reachable_after_error:
  "reachable translator max_len
     \<lparr>shared = main_state\<lparr>running := False\<rparr>, t_capture = Finished, t_translate = Started,
      gui_scheduled = True, main_pc = InMainloop\<rparr>"
proof -
  have "capture_step initial_system
      (initial_system\<lparr>shared := (shared initial_system)\<lparr>running := False\<rparr>,
         t_capture := Finished\<rparr>)"
    by (rule capture_step_error) (simp add: initial_system_def)
  then have "step translator max_len initial_system
      (initial_system\<lparr>shared := (shared initial_system)\<lparr>running := False\<rparr>,
         t_capture := Finished\<rparr>)"
    by (simp add: step_def)
  from reachable_step [OF reachable_initial this] show ?thesis
    by (simp add: initial_system_def)
qed

lemma reachable_returned:
  "reachable translator max_len
     \<lparr>shared = main_state\<lparr>running := False\<rparr>, t_capture = Finished, t_translate = Finished,
      gui_scheduled = True, main_pc = MainReturned\<rparr>"
proof -
  let ?s1 = "\<lparr>shared = main_state\<lparr>running := False\<rparr>, t_capture = Finished,
      t_translate = Started, gui_scheduled = True, main_pc = InMainloop\<rparr>"
  let ?s2 = "?s1\<lparr>t_translate := Finished\<rparr>"
  let ?s3 = "?s2\<lparr>main_pc := AtFinally\<rparr>"
  let ?s4 = "?s3\<lparr>shared := (shared ?s3)\<lparr>running := False\<rparr>, main_pc := JoinCapture\<rparr>"
  let ?s5 = "?s4\<lparr>main_pc := JoinTranslate\<rparr>"
  let ?s6 = "?s5\<lparr>main_pc := MainReturned\<rparr>"
  have "translate_step translator ?s1 ?s2"
    by (subst translate_step_flag_down) simp_all
  then have r2: "reachable translator max_len ?s2"
    using reachable_step [OF reachable_after_error] by (simp add: step_def)
  have "main_step max_len ?s2 ?s3" by (rule mainloop_ends) simp
  then have r3: "reachable translator max_len ?s3"
    using reachable_step [OF r2] by (simp add: step_def)
  have "main_step max_len ?s3 ?s4" by (rule finally_clause) simp
  then have r4: "reachable translator max_len ?s4"
    using reachable_step [OF r3] by (simp add: step_def)
  have "main_step max_len ?s4 ?s5" by (rule join_capture) simp_all
  then have r5: "reachable translator max_len ?s5"
    using reachable_step [OF r4] by (simp add: step_def)
  have "main_step max_len ?s5 ?s6" by (rule join_translate) simp_all
  then have r6: "reachable translator max_len ?s6"
    using reachable_step [OF r5] by (simp add: step_def)
  then show ?thesis by simp
qed

text \<open>
  Claim C6 from the initial state: an audio error in the first pass, and the state
  reached when both threads have finished and \<open>main\<close> has returned.
\<close>

theorem audio_error_shuts_down_witness:
  "running main_state
   \<and> capture_audio_loop [Inl AudioError, Inr (Final ''late'')] main_state =
       (Some Returned, main_state\<lparr>running := False\<rparr>)
   \<and> t_capture initial_system = Started \<and> running (shared initial_system)
   \<and> capture_step initial_system
       (initial_system\<lparr>shared := (shared initial_system)\<lparr>running := False\<rparr>,
          t_capture := Finished\<rparr>)
   \<and> reachable Inr 200
       \<lparr>shared = main_state\<lparr>running := False\<rparr>, t_capture = Finished, t_translate = Finished,
        gui_scheduled = True, main_pc = MainReturned\<rparr>
   \<and> (\<exists>t. rtranclp (step Inr 200) initial_system t \<and> main_pc t = MainReturned)"
proof -
  have r: "running main_state" by (simp add: main_state_def)
  have i: "t_capture initial_system = Started" "running (shared initial_system)"
    by (simp_all add: initial_system_def main_state_def)
  from audio_error_shuts_down [where st = main_state and e = AudioError
      and xs = "[Inr (Final ''late'')]" and s = initial_system and translator = Inr
      and max_len = 200 and s' = initial_system]
  show ?thesis
    using r i reachable_initial [of Inr 200] reachable_returned [of Inr 200] by blast
qed

end
